theory Spec2Isabelle
  imports Complex_Main
begin

section \<open>Snake game: the simulation core of the multi-fruit program\<close>

text \<open>
  The program modelled is the multi-fruit version of the game (three fruits, a tick
  interval \<open>speed\<close> that shrinks with every fruit eaten). Its \<open>Vector2\<close> values hold two
  floats that are always small integers (grid cells, unit directions, the literals
  \<open>-1\<close> and \<open>cellcount\<close>), on which float addition, \<open>==\<close> and raymath's \<open>Vector2Equals\<close>
  (tolerance \<open>0.000001 * max 1 |x|\<close>, below 1) are exact; a \<open>Vector2\<close> is therefore a pair
  of integers here. The \<open>int\<close> counters (\<open>score\<close>, \<open>high_score\<close>, \<open>temp_score\<close>) are
  unbounded integers: a round would need \<open>2^31\<close> fruits to overflow them. The tick
  interval is a \<open>double\<close> in the source and an exact real number here, so the rounding
  of each product is left out.
\<close>

subsection \<open>Globals and helpers\<close>

type_synonym Vector2 = "int \<times> int"

definition cellcount :: int where
  "cellcount = 25"

definition Vector2Add :: "Vector2 \<Rightarrow> Vector2 \<Rightarrow> Vector2" where
  "Vector2Add v1 v2 = (fst v1 + fst v2, snd v1 + snd v2)"

text \<open>\<open>ElementInDeque\<close>: scan from index 0, return true at the first equal element.\<close>

fun ElementInDeque :: "Vector2 \<Rightarrow> Vector2 list \<Rightarrow> bool" where
  "ElementInDeque element [] = False"
| "ElementInDeque element (x # xs) = (if x = element then True else ElementInDeque element xs)"

text \<open>
  What a call can end in besides a result: indexing or popping an empty deque
  (undefined behaviour in C++), and the resampling loop of \<open>GenerateRandomPos\<close> never
  finding a free cell.
\<close>

datatype fault = EmptyDeque | Diverges

subsection \<open>The random source\<close>

text \<open>
  raylib's \<open>GetRandomValue(min, max)\<close> returns an integer between \<open>min\<close> and \<open>max\<close>, both
  included. The generator is a parameter: \<open>rnd\<close> is the sequence of its raw draws, and
  the index of the next draw is threaded through the calls.
\<close>

definition GetRandomValue :: "(nat \<Rightarrow> nat) \<Rightarrow> nat \<Rightarrow> int \<Rightarrow> int \<Rightarrow> int" where
  "GetRandomValue rnd i lo hi = lo + int (rnd i mod nat (hi - lo + 1))"

subsection \<open>Snake\<close>

record Snake =
  addSegment :: bool
  body :: "Vector2 list"
  direction :: Vector2

definition Snake_init :: Snake where
  "Snake_init = \<lparr>addSegment = False, body = [(6, 9), (5, 9), (4, 9)], direction = (1, 0)\<rparr>"

text \<open>\<open>Snake::Update\<close>: push the new head, then either clear the flag or pop the tail.\<close>

definition Snake_Update :: "Snake \<Rightarrow> fault + Snake" where
  "Snake_Update s =
     (case body s of
        [] \<Rightarrow> Inl EmptyDeque
      | h # t \<Rightarrow>
          (let pushed = Vector2Add h (direction s) # h # t in
           if addSegment s then Inr (s\<lparr>addSegment := False, body := pushed\<rparr>)
           else Inr (s\<lparr>body := butlast pushed\<rparr>)))"

text \<open>\<open>Snake::Reset\<close>: assigns \<open>body\<close> and \<open>direction\<close>, nothing else.\<close>

definition Snake_Reset :: "Snake \<Rightarrow> Snake" where
  "Snake_Reset s = s\<lparr>body := [(6, 9), (5, 9), (4, 9)], direction := (1, 0)\<rparr>"

subsection \<open>Food\<close>

record Food =
  position :: Vector2
  textureIndex :: int

text \<open>\<open>Food::GenerateRandomCell\<close>: two draws, \<open>x\<close> first.\<close>

definition GenerateRandomCell :: "(nat \<Rightarrow> nat) \<Rightarrow> nat \<Rightarrow> Vector2" where
  "GenerateRandomCell rnd i =
     (GetRandomValue rnd i 0 (cellcount - 1), GetRandomValue rnd (i + 1) 0 (cellcount - 1))"

text \<open>
  \<open>Food::GenerateRandomPos\<close>: draw a cell, and draw again while it lies in the snake's
  body. The loop has no bound; a run that never leaves it has the value \<open>None\<close>. The
  result carries the index of the next unused draw.
\<close>

partial_function (option) GenerateRandomPos ::
  "(nat \<Rightarrow> nat) \<Rightarrow> nat \<Rightarrow> Vector2 list \<Rightarrow> (Vector2 \<times> nat) option" where
  "GenerateRandomPos rnd i snakeBody =
     (if ElementInDeque (GenerateRandomCell rnd i) snakeBody
      then GenerateRandomPos rnd (i + 2) snakeBody
      else Some (GenerateRandomCell rnd i, i + 2))"

declare GenerateRandomPos.simps [code]

text \<open>The constructor \<open>Food(snakeBody)\<close>: the texture index is drawn before the position.\<close>

definition Food_new :: "(nat \<Rightarrow> nat) \<Rightarrow> nat \<Rightarrow> Vector2 list \<Rightarrow> fault + (Food \<times> nat)" where
  "Food_new rnd i snakeBody =
     (case GenerateRandomPos rnd (i + 1) snakeBody of
        None \<Rightarrow> Inl Diverges
      | Some (p, j) \<Rightarrow> Inr (\<lparr>position = p, textureIndex = GetRandomValue rnd i 0 3\<rparr>, j))"

text \<open>
  The loop \<open>for (i = 0; i < n; i++) fruits.push_back(Food(snake.body))\<close> of the
  constructor of \<open>Game\<close> and of \<open>GameOver\<close>.
\<close>

fun push_fruits ::
  "(nat \<Rightarrow> nat) \<Rightarrow> nat \<Rightarrow> Vector2 list \<Rightarrow> nat \<Rightarrow> Food list \<Rightarrow> fault + (Food list \<times> nat)" where
  "push_fruits rnd 0 snakeBody i fs = Inr (fs, i)"
| "push_fruits rnd (Suc n) snakeBody i fs =
     (case Food_new rnd i snakeBody of
        Inl e \<Rightarrow> Inl e
      | Inr (f, j) \<Rightarrow> push_fruits rnd n snakeBody j (fs @ [f]))"

subsection \<open>Game\<close>

datatype sound = Eat | Wall

text \<open>
  The fields of \<open>Game\<close>, the globals \<open>high_score\<close> and \<open>temp_score\<close>, the index of the next
  random draw, and the sounds played so far (oldest first).
\<close>

record Game =
  score :: int
  speed :: real
  running :: bool
  game_over :: bool
  snake :: Snake
  fruits :: "Food list"
  high_score :: int
  temp_score :: int
  seed :: nat
  played :: "sound list"

definition PlaySound :: "sound \<Rightarrow> Game \<Rightarrow> Game" where
  "PlaySound sd g = g\<lparr>played := played g @ [sd]\<rparr>"

text \<open>
  The program at start-up: the globals' initialisers, the member initialisers of
  \<open>Game\<close>, and the constructor's three fruits.
\<close>

definition Game_init :: "(nat \<Rightarrow> nat) \<Rightarrow> fault + Game" where
  "Game_init rnd =
     (case push_fruits rnd 3 (body Snake_init) 0 [] of
        Inl e \<Rightarrow> Inl e
      | Inr (fs, j) \<Rightarrow>
          Inr \<lparr>score = 0, speed = 0.2, running = False, game_over = False,
               snake = Snake_init, fruits = fs, high_score = 0, temp_score = 0,
               seed = j, played = []\<rparr>)"

text \<open>The statement \<open>if (speed >= 0.07) speed *= 0.98;\<close>.\<close>

definition speed_up :: "real \<Rightarrow> real" where
  "speed_up v = (if v \<ge> 0.07 then v * 0.98 else v)"

text \<open>
  \<open>Game::CheckCollisionWithFood\<close>: the loop over the fruits, in order; it returns the
  fruits, each respawned or left alone, with the game as the loop body has changed it.
\<close>

fun food_loop :: "(nat \<Rightarrow> nat) \<Rightarrow> Food list \<Rightarrow> Game \<Rightarrow> fault + (Food list \<times> Game)" where
  "food_loop rnd [] g = Inr ([], g)"
| "food_loop rnd (f # fs) g =
     (case body (snake g) of
        [] \<Rightarrow> Inl EmptyDeque
      | h # t \<Rightarrow>
          if h = position f then
            (case GenerateRandomPos rnd (seed g) (body (snake g)) of
               None \<Rightarrow> Inl Diverges
             | Some (p, j) \<Rightarrow>
                 (case food_loop rnd fs
                         (PlaySound Eat
                            (g\<lparr>snake := (snake g)\<lparr>addSegment := True\<rparr>,
                               score := score g + 1,
                               speed := speed_up (speed g),
                               seed := j + 1\<rparr>)) of
                    Inl e \<Rightarrow> Inl e
                  | Inr (fs', g') \<Rightarrow>
                      Inr (\<lparr>position = p, textureIndex = GetRandomValue rnd j 0 3\<rparr> # fs', g')))
          else
            (case food_loop rnd fs g of
               Inl e \<Rightarrow> Inl e
             | Inr (fs', g') \<Rightarrow> Inr (f # fs', g')))"

definition CheckCollisionWithFood :: "(nat \<Rightarrow> nat) \<Rightarrow> Game \<Rightarrow> fault + Game" where
  "CheckCollisionWithFood rnd g =
     (case food_loop rnd (fruits g) g of
        Inl e \<Rightarrow> Inl e
      | Inr (fs', g') \<Rightarrow> Inr (g'\<lparr>fruits := fs'\<rparr>))"

text \<open>\<open>Game::GameOver\<close>.\<close>

definition GameOver :: "(nat \<Rightarrow> nat) \<Rightarrow> Game \<Rightarrow> fault + Game" where
  "GameOver rnd g =
     (case push_fruits rnd 3 (body (Snake_Reset (snake g))) (seed g) [] of
        Inl e \<Rightarrow> Inl e
      | Inr (fs, j) \<Rightarrow>
          Inr (g\<lparr>game_over := True,
                 snake := Snake_Reset (snake g),
                 fruits := fs,
                 seed := j,
                 running := False,
                 high_score := (if score g \<ge> high_score g then score g else high_score g),
                 temp_score := score g,
                 score := 0,
                 speed := 0.2\<rparr>))"

text \<open>The block \<open>{ GameOver(); PlaySound(wall); }\<close> that each terminal check runs.\<close>

definition GameOver_wall :: "(nat \<Rightarrow> nat) \<Rightarrow> Game \<Rightarrow> fault + Game" where
  "GameOver_wall rnd g =
     (case GameOver rnd g of Inl e \<Rightarrow> Inl e | Inr g' \<Rightarrow> Inr (PlaySound Wall g'))"

text \<open>
  \<open>Game::CheckCollisionWithEdges\<close>: two \<open>if\<close>s in sequence; the second reads the head
  again, after whatever the first has done.
\<close>

definition CheckCollisionWithEdges :: "(nat \<Rightarrow> nat) \<Rightarrow> Game \<Rightarrow> fault + Game" where
  "CheckCollisionWithEdges rnd g =
     (case body (snake g) of
        [] \<Rightarrow> Inl EmptyDeque
      | h # t \<Rightarrow>
          (case (if fst h = cellcount \<or> fst h = - 1 then GameOver_wall rnd g else Inr g) of
             Inl e \<Rightarrow> Inl e
           | Inr g1 \<Rightarrow>
               (case body (snake g1) of
                  [] \<Rightarrow> Inl EmptyDeque
                | h1 # t1 \<Rightarrow>
                    if snd h1 = cellcount \<or> snd h1 = - 1 then GameOver_wall rnd g1
                    else Inr g1)))"

text \<open>\<open>Game::CheckCollisionsWithTail\<close>: the head against a copy of the body without it.\<close>

definition CheckCollisionsWithTail :: "(nat \<Rightarrow> nat) \<Rightarrow> Game \<Rightarrow> fault + Game" where
  "CheckCollisionsWithTail rnd g =
     (case body (snake g) of
        [] \<Rightarrow> Inl EmptyDeque
      | h # headless \<Rightarrow>
          if ElementInDeque h headless then GameOver_wall rnd g else Inr g)"

text \<open>\<open>Game::Update\<close>, one tick.\<close>

definition Update :: "(nat \<Rightarrow> nat) \<Rightarrow> Game \<Rightarrow> fault + Game" where
  "Update rnd g =
     (if running g then
        (case Snake_Update (snake g) of
           Inl e \<Rightarrow> Inl e
         | Inr s \<Rightarrow>
             (case CheckCollisionWithFood rnd (g\<lparr>snake := s\<rparr>) of
                Inl e \<Rightarrow> Inl e
              | Inr g1 \<Rightarrow>
                  (case CheckCollisionWithEdges rnd g1 of
                     Inl e \<Rightarrow> Inl e
                   | Inr g2 \<Rightarrow> CheckCollisionsWithTail rnd g2)))
      else Inr g)"

subsection \<open>The main loop\<close>

text \<open>
  What one iteration of the loop in \<open>main\<close> polls: the Enter key, the three buttons,
  whether \<open>EventTriggered(game.speed)\<close> holds, and the four direction keys (arrow or
  letter). Drawing and \<open>WaitTime\<close> leave the game untouched.
\<close>

record input =
  key_enter :: bool
  restart_pressed :: bool
  exit_pressed :: bool
  start_pressed :: bool
  event_triggered :: bool
  key_up :: bool
  key_down :: bool
  key_left :: bool
  key_right :: bool

definition set_direction :: "Vector2 \<Rightarrow> Game \<Rightarrow> Game" where
  "set_direction d g = g\<lparr>snake := (snake g)\<lparr>direction := d\<rparr>, running := True\<rparr>"

text \<open>The four direction handlers, in the order of the source.\<close>

definition direction_keys :: "input \<Rightarrow> Game \<Rightarrow> Game" where
  "direction_keys inp g =
     (let g1 = (if key_up inp \<and> snd (direction (snake g)) \<noteq> 1
                then set_direction (0, - 1) g else g);
          g2 = (if key_down inp \<and> snd (direction (snake g1)) \<noteq> - 1
                then set_direction (0, 1) g1 else g1);
          g3 = (if key_left inp \<and> fst (direction (snake g2)) \<noteq> 1
                then set_direction (- 1, 0) g2 else g2)
      in if key_right inp \<and> fst (direction (snake g3)) \<noteq> - 1
         then set_direction (1, 0) g3 else g3)"

text \<open>
  One iteration of the loop in \<open>main\<close>. The exit button only sets the flag that ends the
  loop, so the game is returned as it is.
\<close>

definition frame :: "(nat \<Rightarrow> nat) \<Rightarrow> input \<Rightarrow> Game \<Rightarrow> fault + Game" where
  "frame rnd inp g =
     (let g1 = (if key_enter inp \<and> \<not> running g
                then g\<lparr>running := True, game_over := False\<rparr> else g)
      in if game_over g1 then
           Inr (if restart_pressed inp then g1\<lparr>game_over := False, running := True\<rparr> else g1)
         else if \<not> running g1 \<and> \<not> game_over g1 then
           Inr (if exit_pressed inp then g1
                else if start_pressed inp then g1\<lparr>running := True\<rparr> else g1)
         else
           (case (if event_triggered inp then Update rnd g1 else Inr g1) of
              Inl e \<Rightarrow> Inl e
            | Inr g2 \<Rightarrow> Inr (direction_keys inp g2)))"

text \<open>
  The states the program can be in at the end of an iteration, for a given random
  sequence. A tick and a round end on their own are steps too, so that every call of
  \<open>Update\<close> and of \<open>GameOver\<close> on such a state is covered.
\<close>

inductive reachable :: "(nat \<Rightarrow> nat) \<Rightarrow> Game \<Rightarrow> bool" for rnd :: "nat \<Rightarrow> nat" where
  start: "Game_init rnd = Inr g \<Longrightarrow> reachable rnd g"
| iteration: "reachable rnd g \<Longrightarrow> frame rnd inp g = Inr g' \<Longrightarrow> reachable rnd g'"
| tick: "reachable rnd g \<Longrightarrow> Update rnd g = Inr g' \<Longrightarrow> reachable rnd g'"
| round_end: "reachable rnd g \<Longrightarrow> GameOver rnd g = Inr g' \<Longrightarrow> reachable rnd g'"

subsection \<open>Predicates used in the statements\<close>

text \<open>
  The disjunction of the two conditions of \<open>CheckCollisionWithEdges\<close>; the cells of the
  grid; and the one assumption made on the random sequence where a statement says that
  a spawn returns: from every index on, the resampling loop meets a cell outside
  \<open>occ\<close>.
\<close>

definition head_outside :: "Vector2 \<Rightarrow> bool" where
  "head_outside h = (fst h = cellcount \<or> fst h = - 1 \<or> snd h = cellcount \<or> snd h = - 1)"

definition in_grid :: "Vector2 \<Rightarrow> bool" where
  "in_grid c = (0 \<le> fst c \<and> fst c < cellcount \<and> 0 \<le> snd c \<and> snd c < cellcount)"

definition finds_free :: "(nat \<Rightarrow> nat) \<Rightarrow> Vector2 list \<Rightarrow> bool" where
  "finds_free rnd occ = (\<forall>i. \<exists>k. \<not> ElementInDeque (GenerateRandomCell rnd (i + 2 * k)) occ)"

text \<open>
  Two concrete random sequences: one whose first two cells lie on the initial snake,
  and one that puts the three initial fruits on the cell \<open>(7,9)\<close> in front of the
  snake and every later cell at \<open>(0,0)\<close>.
\<close>

definition draws_retry :: "nat \<Rightarrow> nat" where
  "draws_retry n = (if n < 6 then [6, 9, 5, 9, 3, 4] ! n else 0)"

definition draws_stacked :: "nat \<Rightarrow> nat" where
  "draws_stacked n = (if n < 9 then (if n mod 3 = 1 then 7 else 9) else 0)"

text \<open>A running game with a given snake and given fruits, for concrete instances.\<close>

definition sample_game :: "bool \<Rightarrow> Vector2 list \<Rightarrow> Vector2 \<Rightarrow> Food list \<Rightarrow> Game" where
  "sample_game grow cells d fs =
     \<lparr>score = 4, speed = 0.2, running = True, game_over = False,
      snake = \<lparr>addSegment = grow, body = cells, direction = d\<rparr>,
      fruits = fs, high_score = 2, temp_score = 0, seed = 0, played = []\<rparr>"

text \<open>
  The four directions, the opposite of a direction, and the input of an iteration in
  which the key of direction \<open>d\<close> is the only thing pressed.
\<close>

definition is_direction :: "Vector2 \<Rightarrow> bool" where
  "is_direction d = (d = (1, 0) \<or> d = (- 1, 0) \<or> d = (0, 1) \<or> d = (0, - 1))"

definition opposite :: "Vector2 \<Rightarrow> Vector2" where
  "opposite d = (- fst d, - snd d)"

definition key_of :: "Vector2 \<Rightarrow> input" where
  "key_of d =
     \<lparr>key_enter = False, restart_pressed = False, exit_pressed = False,
      start_pressed = False, event_triggered = False,
      key_up = (d = (0, - 1)), key_down = (d = (0, 1)),
      key_left = (d = (- 1, 0)), key_right = (d = (1, 0))\<rparr>"

text \<open>The invariant on the fruits: each lies off the snake's body and inside the grid.\<close>

definition food_free :: "Game \<Rightarrow> bool" where
  "food_free g =
     (\<forall>f \<in> set (fruits g). position f \<notin> set (body (snake g)) \<and> in_grid (position f))"

text \<open>
  The number of fruits on a cell; the invariant that ties the tick interval to the
  score of the round; and the relation between two games that differ at most in flags
  and in the snake's direction.
\<close>

definition fruits_at :: "Vector2 \<Rightarrow> Food list \<Rightarrow> nat" where
  "fruits_at h fs = length (filter (\<lambda>f. h = position f) fs)"

definition speed_ok :: "Game \<Rightarrow> bool" where
  "speed_ok g = (0 \<le> score g \<and> speed g = (speed_up ^^ nat (score g)) 0.2)"

definition same_core :: "Game \<Rightarrow> Game \<Rightarrow> bool" where
  "same_core g g' =
     (fruits g' = fruits g \<and> body (snake g') = body (snake g) \<and>
      score g' = score g \<and> speed g' = speed g)"

text \<open>
  The game built by the constructor from \<open>draws_stacked\<close>, the same game once started,
  and the game one tick later, when the head has entered the cell of the three fruits.
\<close>

definition stacked_start :: Game where
  "stacked_start =
     \<lparr>score = 0, speed = 0.2, running = False, game_over = False,
      snake = \<lparr>addSegment = False, body = [(6, 9), (5, 9), (4, 9)], direction = (1, 0)\<rparr>,
      fruits = [\<lparr>position = (7, 9), textureIndex = 1\<rparr>,
                \<lparr>position = (7, 9), textureIndex = 1\<rparr>,
                \<lparr>position = (7, 9), textureIndex = 1\<rparr>],
      high_score = 0, temp_score = 0, seed = 9, played = []\<rparr>"

definition stacked_running :: Game where
  "stacked_running = stacked_start\<lparr>running := True\<rparr>"

definition stacked_fed :: Game where
  "stacked_fed =
     \<lparr>score = 3, speed = 0.2 * 0.98 ^ 3, running = True, game_over = False,
      snake = \<lparr>addSegment = True, body = [(7, 9), (6, 9), (5, 9)], direction = (1, 0)\<rparr>,
      fruits = [\<lparr>position = (0, 0), textureIndex = 0\<rparr>,
                \<lparr>position = (0, 0), textureIndex = 0\<rparr>,
                \<lparr>position = (0, 0), textureIndex = 0\<rparr>],
      high_score = 0, temp_score = 0, seed = 18, played = [Eat, Eat, Eat]\<rparr>"

section \<open>Auxiliary facts\<close>

subsection \<open>Spawning\<close>

lemma ElementInDeque_set: "ElementInDeque e xs \<longleftrightarrow> e \<in> set xs"
  by (induction xs) auto

lemma GenerateRandomCell_in_grid: "in_grid (GenerateRandomCell rnd i)"
  by (simp add: in_grid_def GenerateRandomCell_def GetRandomValue_def cellcount_def)

lemma GenerateRandomPos_sound:
  assumes "GenerateRandomPos rnd i occ = Some y"
  shows "\<not> ElementInDeque (fst y) occ \<and> in_grid (fst y) \<and> i + 2 \<le> snd y"
proof (rule GenerateRandomPos.raw_induct
        [where P = "\<lambda>rnd i occ y. \<not> ElementInDeque (fst y) occ \<and> in_grid (fst y) \<and> i + 2 \<le> snd y",
         OF _ assms], goal_cases)
  case (1 loop rnd i occ y)
  show ?case
  proof (cases "ElementInDeque (GenerateRandomCell rnd i) occ")
    case True
    with 1(2) have "loop rnd (i + 2) occ = Some y" by simp
    from 1(1) [OF this] show ?thesis by simp
  next
    case False
    with 1(2) show ?thesis by (auto simp: GenerateRandomCell_in_grid)
  qed
qed

lemma GenerateRandomPos_returns:
  "\<not> ElementInDeque (GenerateRandomCell rnd (i + 2 * k)) occ \<Longrightarrow>
   GenerateRandomPos rnd i occ \<noteq> None"
proof (induction k arbitrary: i)
  case 0
  then show ?case by (subst GenerateRandomPos.simps) simp
next
  case (Suc k)
  from Suc.prems have "\<not> ElementInDeque (GenerateRandomCell rnd ((i + 2) + 2 * k)) occ"
    by (simp add: add.commute add.left_commute)
  from Suc.IH [OF this] have "GenerateRandomPos rnd (i + 2) occ \<noteq> None" .
  then show ?case by (subst GenerateRandomPos.simps) simp
qed

lemma finds_free_returns:
  "finds_free rnd occ \<Longrightarrow> \<exists>p j. GenerateRandomPos rnd i occ = Some (p, j)"
  using GenerateRandomPos_returns [of rnd i _ occ]
  by (fastforce simp: finds_free_def)

lemma Food_new_sound:
  "Food_new rnd i occ = Inr (f, j) \<Longrightarrow> position f \<notin> set occ \<and> in_grid (position f)"
  by (auto simp: Food_new_def ElementInDeque_set split: option.splits dest: GenerateRandomPos_sound)

lemma Food_new_returns:
  "finds_free rnd occ \<Longrightarrow> \<exists>f j. Food_new rnd i occ = Inr (f, j)"
  using finds_free_returns [of rnd occ "i + 1"] by (auto simp: Food_new_def)

lemma push_fruits_sound:
  "push_fruits rnd n occ i fs = Inr (fs', j) \<Longrightarrow>
   length fs' = length fs + n \<and>
   (\<forall>f \<in> set fs'. f \<in> set fs \<or> position f \<notin> set occ \<and> in_grid (position f))"
proof (induction n arbitrary: i fs)
  case 0
  then show ?case by simp
next
  case (Suc n)
  then show ?case
    by (fastforce split: sum.splits prod.splits dest: Food_new_sound)
qed

lemma push_fruits_returns:
  "finds_free rnd occ \<Longrightarrow> \<exists>fs' j. push_fruits rnd n occ i fs = Inr (fs', j)"
proof (induction n arbitrary: i fs)
  case 0
  then show ?case by simp
next
  case (Suc n)
  from Food_new_returns [OF Suc.prems, of i] obtain f j where "Food_new rnd i occ = Inr (f, j)"
    by blast
  with Suc.IH [OF Suc.prems, of j "fs @ [f]"] show ?case by simp
qed

subsection \<open>Round end and the boundary check\<close>

lemma Snake_Reset_simps:
  "body (Snake_Reset s) = [(6, 9), (5, 9), (4, 9)]"
  "direction (Snake_Reset s) = (1, 0)"
  "addSegment (Snake_Reset s) = addSegment s"
  by (simp_all add: Snake_Reset_def)

lemma GameOver_fields:
  assumes "GameOver rnd g = Inr g'"
  shows "game_over g'" and "\<not> running g'"
    and "snake g' = Snake_Reset (snake g)"
    and "push_fruits rnd 3 [(6, 9), (5, 9), (4, 9)] (seed g) [] = Inr (fruits g', seed g')"
    and "speed g' = 0.2"
    and "high_score g' = max (high_score g) (score g)"
    and "temp_score g' = score g" and "score g' = 0"
    and "played g' = played g"
  using assms
  by (auto simp: GameOver_def Snake_Reset_simps split: sum.splits prod.splits)

lemma GameOver_fruits:
  assumes "GameOver rnd g = Inr g'"
  shows "length (fruits g') = 3"
    and "\<forall>f \<in> set (fruits g'). position f \<notin> set (body (snake g')) \<and> in_grid (position f)"
  using push_fruits_sound [OF GameOver_fields(4) [OF assms]] GameOver_fields(3) [OF assms]
  by (auto simp: Snake_Reset_simps)

lemma GameOver_returns:
  assumes "finds_free rnd [(6, 9), (5, 9), (4, 9)]"
  shows "\<exists>g'. GameOver rnd g = Inr g'"
  using push_fruits_returns [OF assms, of 3 "seed g" "[]"]
  by (auto simp: GameOver_def Snake_Reset_simps)

lemma GameOver_wall_fields:
  assumes "GameOver_wall rnd g = Inr g'"
  shows "\<exists>g1. GameOver rnd g = Inr g1 \<and> g' = PlaySound Wall g1"
  using assms by (auto simp: GameOver_wall_def split: sum.splits)

lemma CheckCollisionWithEdges_eq:
  assumes "body (snake g) = h # t"
  shows "CheckCollisionWithEdges rnd g = (if head_outside h then GameOver_wall rnd g else Inr g)"
proof (cases "fst h = cellcount \<or> fst h = - 1")
  case True
  show ?thesis
  proof (cases "GameOver_wall rnd g")
    case (Inl e)
    with True assms show ?thesis by (auto simp: CheckCollisionWithEdges_def head_outside_def)
  next
    case (Inr g1)
    from GameOver_wall_fields [OF Inr] obtain g0 where
      "GameOver rnd g = Inr g0" and "g1 = PlaySound Wall g0" by blast
    with GameOver_fields(3) [of rnd g g0] have "body (snake g1) = [(6, 9), (5, 9), (4, 9)]"
      by (simp add: PlaySound_def Snake_Reset_simps)
    with True assms Inr show ?thesis
      by (auto simp: CheckCollisionWithEdges_def head_outside_def cellcount_def)
  qed
next
  case False
  with assms show ?thesis by (auto simp: CheckCollisionWithEdges_def head_outside_def)
qed

subsection \<open>The concrete random sequences\<close>

lemma finds_free_draws_retry: "(0, 0) \<notin> set occ \<Longrightarrow> finds_free draws_retry occ"
  unfolding finds_free_def
proof
  fix i
  assume "(0, 0) \<notin> set occ"
  then have "\<not> ElementInDeque (GenerateRandomCell draws_retry (i + 2 * 3)) occ"
    by (simp add: GenerateRandomCell_def GetRandomValue_def ElementInDeque_set draws_retry_def)
  then show "\<exists>k. \<not> ElementInDeque (GenerateRandomCell draws_retry (i + 2 * k)) occ" ..
qed

lemma finds_free_draws_stacked: "(0, 0) \<notin> set occ \<Longrightarrow> finds_free draws_stacked occ"
  unfolding finds_free_def
proof
  fix i
  assume "(0, 0) \<notin> set occ"
  then have "\<not> ElementInDeque (GenerateRandomCell draws_stacked (i + 2 * 5)) occ"
    by (simp add: GenerateRandomCell_def GetRandomValue_def ElementInDeque_set draws_stacked_def)
  then show "\<exists>k. \<not> ElementInDeque (GenerateRandomCell draws_stacked (i + 2 * k)) occ" ..
qed

subsection \<open>Direction keys\<close>

lemma direction_keys_single:
  assumes "is_direction (direction (snake g))" and "is_direction d"
  shows "direction_keys (key_of d) g =
           (if d = opposite (direction (snake g)) then g else set_direction d g)"
  using assms unfolding is_direction_def
  by (elim disjE; simp add: direction_keys_def key_of_def opposite_def Let_def)

lemma frame_keys_only:
  "running g \<Longrightarrow> \<not> game_over g \<Longrightarrow> frame rnd (key_of d) g = Inr (direction_keys (key_of d) g)"
  by (simp add: frame_def key_of_def)

lemma Snake_Update_head:
  "body s = h # t \<Longrightarrow>
   \<exists>s'. Snake_Update s = Inr s' \<and> hd (body s') = Vector2Add h (direction s)"
  by (simp add: Snake_Update_def Let_def)

subsection \<open>The food check\<close>

lemma food_loop_sound:
  "food_loop rnd fs g = Inr (fs', g') \<Longrightarrow>
   body (snake g') = body (snake g) \<and> direction (snake g') = direction (snake g) \<and>
   running g' = running g \<and> game_over g' = game_over g \<and> high_score g' = high_score g \<and>
   length fs' = length fs \<and>
   (\<forall>f \<in> set fs'. (f \<in> set fs \<and> position f \<noteq> hd (body (snake g))) \<or>
                    (position f \<notin> set (body (snake g)) \<and> in_grid (position f)))"
proof (induction fs arbitrary: g fs' g')
  case Nil
  then show ?case by simp
next
  case (Cons f fs)
  from Cons.prems obtain h t where b: "body (snake g) = h # t"
    by (cases "body (snake g)") auto
  show ?case
  proof (cases "h = position f")
    case True
    with Cons.prems b obtain p j where
      gp: "GenerateRandomPos rnd (seed g) (body (snake g)) = Some (p, j)"
      by (cases "GenerateRandomPos rnd (seed g) (body (snake g))") auto
    let ?g1 = "PlaySound Eat (g\<lparr>snake := (snake g)\<lparr>addSegment := True\<rparr>, score := score g + 1,
                 speed := speed_up (speed g), seed := j + 1\<rparr>)"
    from Cons.prems b True gp obtain fs1 where
      rec: "food_loop rnd fs ?g1 = Inr (fs1, g')"
      and fs': "fs' = \<lparr>position = p, textureIndex = GetRandomValue rnd j 0 3\<rparr> # fs1"
      by (cases "food_loop rnd fs ?g1") auto
    have g1: "body (snake ?g1) = body (snake g)" "direction (snake ?g1) = direction (snake g)"
      "running ?g1 = running g" "game_over ?g1 = game_over g" "high_score ?g1 = high_score g"
      by (simp_all add: PlaySound_def)
    from GenerateRandomPos_sound [OF gp] have "p \<notin> set (body (snake g)) \<and> in_grid p"
      by (simp add: ElementInDeque_set)
    with Cons.IH [OF rec] g1 fs' show ?thesis by auto
  next
    case False
    with Cons.prems b obtain fs1 where
      rec: "food_loop rnd fs g = Inr (fs1, g')" and fs': "fs' = f # fs1"
      by (cases "food_loop rnd fs g") auto
    with Cons.IH [OF rec] False b show ?thesis by auto
  qed
qed

lemma food_loop_effect:
  "food_loop rnd fs g = Inr (fs', g') \<Longrightarrow> body (snake g) = h # t \<Longrightarrow>
   score g' = score g + int (length (filter (\<lambda>f. h = position f) fs)) \<and>
   speed g' = (speed_up ^^ length (filter (\<lambda>f. h = position f) fs)) (speed g) \<and>
   played g' = played g @ replicate (length (filter (\<lambda>f. h = position f) fs)) Eat \<and>
   addSegment (snake g') = (addSegment (snake g) \<or> 0 < length (filter (\<lambda>f. h = position f) fs))"
proof (induction fs arbitrary: g fs' g')
  case Nil
  then show ?case by simp
next
  case (Cons f fs)
  note b = Cons.prems(2)
  show ?case
  proof (cases "h = position f")
    case True
    with Cons.prems(1) b obtain p j where
      gp: "GenerateRandomPos rnd (seed g) (body (snake g)) = Some (p, j)"
      by (cases "GenerateRandomPos rnd (seed g) (body (snake g))") auto
    let ?g1 = "PlaySound Eat (g\<lparr>snake := (snake g)\<lparr>addSegment := True\<rparr>, score := score g + 1,
                 speed := speed_up (speed g), seed := j + 1\<rparr>)"
    from Cons.prems(1) b True gp obtain fs1 where
      rec: "food_loop rnd fs ?g1 = Inr (fs1, g')"
      by (cases "food_loop rnd fs ?g1") auto
    have g1: "body (snake ?g1) = h # t" "score ?g1 = score g + 1"
      "speed ?g1 = speed_up (speed g)" "played ?g1 = played g @ [Eat]"
      "addSegment (snake ?g1)"
      using b by (simp_all add: PlaySound_def)
    from Cons.IH [OF rec g1(1)] g1(2-) True show ?thesis
      by (simp add: funpow_swap1 replicate_app_Cons_same)
  next
    case False
    with Cons.prems(1) b obtain fs1 where
      rec: "food_loop rnd fs g = Inr (fs1, g')"
      by (cases "food_loop rnd fs g") auto
    from Cons.IH [OF rec b] False show ?thesis by simp
  qed
qed

lemma food_loop_returns:
  "finds_free rnd (body (snake g)) \<Longrightarrow> body (snake g) = h # t \<Longrightarrow>
   \<exists>fs' g'. food_loop rnd fs g = Inr (fs', g')"
proof (induction fs arbitrary: g)
  case Nil
  then show ?case by simp
next
  case (Cons f fs)
  note b = Cons.prems(2)
  show ?case
  proof (cases "h = position f")
    case True
    from finds_free_returns [OF Cons.prems(1), of "seed g"] obtain p j where
      gp: "GenerateRandomPos rnd (seed g) (body (snake g)) = Some (p, j)" by blast
    let ?g1 = "PlaySound Eat (g\<lparr>snake := (snake g)\<lparr>addSegment := True\<rparr>, score := score g + 1,
                 speed := speed_up (speed g), seed := j + 1\<rparr>)"
    have g1: "body (snake ?g1) = h # t" using b by (simp add: PlaySound_def)
    with Cons.prems(1) b have "finds_free rnd (body (snake ?g1))" by simp
    from Cons.IH [OF this g1] obtain fs1 g' where "food_loop rnd fs ?g1 = Inr (fs1, g')"
      by blast
    with True b gp show ?thesis by simp
  next
    case False
    from Cons.IH [OF Cons.prems] obtain fs1 g' where "food_loop rnd fs g = Inr (fs1, g')"
      by blast
    with False b show ?thesis by simp
  qed
qed

lemma CheckCollisionsWithTail_eq:
  "body (snake g) = h # t \<Longrightarrow>
   CheckCollisionsWithTail rnd g = (if h \<in> set t then GameOver_wall rnd g else Inr g)"
  by (simp add: CheckCollisionsWithTail_def ElementInDeque_set)

lemma GameOver_wall_sound:
  assumes "GameOver_wall rnd g = Inr g'"
  shows "food_free g'" and "body (snake g') = [(6, 9), (5, 9), (4, 9)]"
    and "score g' = 0" and "speed g' = 0.2" and "played g' = played g @ [Wall]"
    and "game_over g'" and "\<not> running g'"
proof -
  from GameOver_wall_fields [OF assms] obtain g1 where
    g1: "GameOver rnd g = Inr g1" and g': "g' = PlaySound Wall g1" by blast
  from GameOver_fruits(2) [OF g1] show "food_free g'"
    by (simp add: food_free_def g' PlaySound_def)
  from GameOver_fields [OF g1]
  show "body (snake g') = [(6, 9), (5, 9), (4, 9)]"
    and "score g' = 0" and "speed g' = 0.2" and "played g' = played g @ [Wall]"
    and "game_over g'" and "\<not> running g'"
    by (simp_all add: g' PlaySound_def Snake_Reset_simps)
qed

lemma CheckCollisionWithFood_sound:
  assumes "CheckCollisionWithFood rnd g = Inr g'" and "body (snake g) = h # t"
  shows "body (snake g') = body (snake g)" and "direction (snake g') = direction (snake g)"
    and "running g' = running g" and "game_over g' = game_over g"
    and "score g' = score g + int (fruits_at h (fruits g))"
    and "speed g' = (speed_up ^^ fruits_at h (fruits g)) (speed g)"
    and "played g' = played g @ replicate (fruits_at h (fruits g)) Eat"
    and "addSegment (snake g') = (addSegment (snake g) \<or> 0 < fruits_at h (fruits g))"
    and "length (fruits g') = length (fruits g)"
    and "\<forall>f \<in> set (fruits g'). (f \<in> set (fruits g) \<and> position f \<noteq> h) \<or>
                    (position f \<notin> set (body (snake g)) \<and> in_grid (position f))"
proof -
  from assms(1) obtain fs' g1 where
    l: "food_loop rnd (fruits g) g = Inr (fs', g1)" and g': "g' = g1\<lparr>fruits := fs'\<rparr>"
    by (cases "food_loop rnd (fruits g) g") (auto simp: CheckCollisionWithFood_def)
  from food_loop_sound [OF l] assms(2)
  show "body (snake g') = body (snake g)" and "direction (snake g') = direction (snake g)"
    and "running g' = running g" and "game_over g' = game_over g"
    and "length (fruits g') = length (fruits g)"
    and "\<forall>f \<in> set (fruits g'). (f \<in> set (fruits g) \<and> position f \<noteq> h) \<or>
                    (position f \<notin> set (body (snake g)) \<and> in_grid (position f))"
    by (simp_all add: g')
  from food_loop_effect [OF l assms(2)]
  show "score g' = score g + int (fruits_at h (fruits g))"
    and "speed g' = (speed_up ^^ fruits_at h (fruits g)) (speed g)"
    and "played g' = played g @ replicate (fruits_at h (fruits g)) Eat"
    and "addSegment (snake g') = (addSegment (snake g) \<or> 0 < fruits_at h (fruits g))"
    by (simp_all add: g' fruits_at_def)
qed

lemma CheckCollisionWithFood_returns:
  assumes "finds_free rnd (body (snake g))" and "body (snake g) = h # t"
  shows "\<exists>g'. CheckCollisionWithFood rnd g = Inr g'"
  using food_loop_returns [OF assms, of "fruits g"]
  by (auto simp: CheckCollisionWithFood_def)

lemma Snake_Update_sound:
  assumes "Snake_Update s = Inr s'"
  shows "\<exists>h t. body s = h # t \<and>
           body s' = Vector2Add h (direction s) # (if addSegment s then h # t else butlast (h # t)) \<and>
           \<not> addSegment s' \<and> direction s' = direction s"
  using assms
  by (cases "body s") (auto simp: Snake_Update_def Let_def split: if_splits)

lemma Update_running:
  assumes "Update rnd g = Inr g'" and "running g"
  shows "\<exists>s g1 g2. Snake_Update (snake g) = Inr s \<and>
           CheckCollisionWithFood rnd (g\<lparr>snake := s\<rparr>) = Inr g1 \<and>
           CheckCollisionWithEdges rnd g1 = Inr g2 \<and>
           CheckCollisionsWithTail rnd g2 = Inr g'"
  using assms by (simp add: Update_def split: sum.splits)

lemma CheckCollisionWithEdges_cases:
  assumes "CheckCollisionWithEdges rnd g = Inr g'"
  shows "g' = g \<or> GameOver_wall rnd g = Inr g'"
proof (cases "body (snake g)")
  case Nil
  with assms show ?thesis by (simp add: CheckCollisionWithEdges_def)
next
  case (Cons h t)
  from assms show ?thesis
    unfolding CheckCollisionWithEdges_eq [OF Cons] by (auto split: if_splits)
qed

lemma CheckCollisionsWithTail_cases:
  assumes "CheckCollisionsWithTail rnd g = Inr g'"
  shows "g' = g \<or> GameOver_wall rnd g = Inr g'"
proof (cases "body (snake g)")
  case Nil
  with assms show ?thesis by (simp add: CheckCollisionsWithTail_def)
next
  case (Cons h t)
  from assms show ?thesis
    unfolding CheckCollisionsWithTail_eq [OF Cons] by (auto split: if_splits)
qed

subsection \<open>One iteration of the main loop\<close>

lemma same_core_refl: "same_core g g"
  by (simp add: same_core_def)

lemma same_core_set_direction: "same_core g (set_direction d g)"
  by (simp add: same_core_def set_direction_def)

lemma same_core_trans: "same_core g g1 \<Longrightarrow> same_core g1 g2 \<Longrightarrow> same_core g g2"
  by (simp add: same_core_def)

lemma same_core_direction_keys: "same_core g (direction_keys inp g)"
proof -
  have step: "\<And>c d g0. same_core g g0 \<Longrightarrow> same_core g (if c then set_direction d g0 else g0)"
    using same_core_trans same_core_set_direction by simp
  show ?thesis
    unfolding direction_keys_def Let_def
    by (intro step same_core_refl)
qed

lemma frame_cases:
  assumes "frame rnd inp g = Inr g'"
  shows "\<exists>ga gb. same_core g ga \<and> (gb = ga \<or> Update rnd ga = Inr gb) \<and> same_core gb g'"
proof -
  let ?g1 = "if key_enter inp \<and> \<not> running g then g\<lparr>running := True, game_over := False\<rparr> else g"
  have c1: "same_core g ?g1" by (simp add: same_core_def)
  show ?thesis
  proof (cases "game_over ?g1 \<or> \<not> running ?g1")
    case True
    with assms have "same_core ?g1 g'"
      unfolding frame_def Let_def by (auto simp: same_core_def split: if_splits)
    with c1 show ?thesis by blast
  next
    case False
    with assms obtain g2 where
      u: "(if event_triggered inp then Update rnd ?g1 else Inr ?g1) = Inr g2"
      and g': "g' = direction_keys inp g2"
      unfolding frame_def Let_def
      by (cases "if event_triggered inp then Update rnd ?g1 else Inr ?g1") (auto split: if_splits)
    from u have "g2 = ?g1 \<or> Update rnd ?g1 = Inr g2" by (auto split: if_splits)
    with c1 same_core_direction_keys [of g2 inp] g' show ?thesis by blast
  qed
qed

subsection \<open>Invariants of the reachable states\<close>

lemma food_free_same_core: "same_core g g' \<Longrightarrow> food_free g \<Longrightarrow> food_free g'"
  by (simp add: same_core_def food_free_def)

lemma speed_ok_same_core: "same_core g g' \<Longrightarrow> speed_ok g \<Longrightarrow> speed_ok g'"
  by (simp add: same_core_def speed_ok_def)

lemma speed_ok_GameOver_wall: "GameOver_wall rnd g = Inr g' \<Longrightarrow> speed_ok g'"
  using GameOver_wall_sound(3,4) [of rnd g g'] by (simp add: speed_ok_def)

lemma Snake_Update_rest:
  assumes "Snake_Update s = Inr s'"
  shows "\<exists>h t. body s = h # t \<and> body s' = Vector2Add h (direction s) # (tl (body s')) \<and>
               set (tl (body s')) \<subseteq> set (body s)"
proof -
  from Snake_Update_sound [OF assms] obtain h t where
    b: "body s = h # t" and
    b': "body s' = Vector2Add h (direction s) # (if addSegment s then h # t else butlast (h # t))"
    by blast
  have "set (butlast (h # t)) \<subseteq> set (h # t)"
    by (meson in_set_butlastD subsetI)
  with b b' show ?thesis by auto
qed

lemma Update_food_free:
  assumes "Update rnd g = Inr g'" and "food_free g"
  shows "food_free g'"
proof (cases "running g")
  case False
  with assms show ?thesis by (simp add: Update_def)
next
  case True
  from Update_running [OF assms(1) True] obtain s g1 g2 where
    s: "Snake_Update (snake g) = Inr s" and
    f: "CheckCollisionWithFood rnd (g\<lparr>snake := s\<rparr>) = Inr g1" and
    e: "CheckCollisionWithEdges rnd g1 = Inr g2" and
    t: "CheckCollisionsWithTail rnd g2 = Inr g'" by blast
  from Snake_Update_rest [OF s] obtain h t0 where
    b: "body (snake g) = h # t0" and
    b': "body s = Vector2Add h (direction (snake g)) # tl (body s)" and
    sub: "set (tl (body s)) \<subseteq> set (body (snake g))" by blast
  let ?nh = "Vector2Add h (direction (snake g))"
  have b0: "body (snake (g\<lparr>snake := s\<rparr>)) = ?nh # tl (body s)" using b' by simp
  have "food_free g1"
    unfolding food_free_def
  proof
    fix x
    assume x: "x \<in> set (fruits g1)"
    from CheckCollisionWithFood_sound(1) [OF f b0] have b1: "body (snake g1) = body s" by simp
    from CheckCollisionWithFood_sound(10) [OF f b0] x
    have "(x \<in> set (fruits g) \<and> position x \<noteq> ?nh) \<or>
          (position x \<notin> set (body s) \<and> in_grid (position x))" by simp
    then show "position x \<notin> set (body (snake g1)) \<and> in_grid (position x)"
    proof
      assume old: "x \<in> set (fruits g) \<and> position x \<noteq> ?nh"
      with assms(2) have "position x \<notin> set (body (snake g))" and g: "in_grid (position x)"
        by (simp_all add: food_free_def)
      with sub have "position x \<notin> set (tl (body s))" by blast
      with old have "position x \<notin> set (?nh # tl (body s))" by simp
      with b' have "position x \<notin> set (body s)" by simp
      with g b1 show ?thesis by simp
    next
      assume "position x \<notin> set (body s) \<and> in_grid (position x)"
      with b1 show ?thesis by simp
    qed
  qed
  with CheckCollisionWithEdges_cases [OF e] GameOver_wall_sound(1) [of rnd g1 g2]
  have "food_free g2" by blast
  with CheckCollisionsWithTail_cases [OF t] GameOver_wall_sound(1) [of rnd g2 g']
  show ?thesis by blast
qed

lemma Update_speed_ok:
  assumes "Update rnd g = Inr g'" and "speed_ok g"
  shows "speed_ok g'"
proof (cases "running g")
  case False
  with assms show ?thesis by (simp add: Update_def)
next
  case True
  from Update_running [OF assms(1) True] obtain s g1 g2 where
    s: "Snake_Update (snake g) = Inr s" and
    f: "CheckCollisionWithFood rnd (g\<lparr>snake := s\<rparr>) = Inr g1" and
    e: "CheckCollisionWithEdges rnd g1 = Inr g2" and
    t: "CheckCollisionsWithTail rnd g2 = Inr g'" by blast
  from Snake_Update_rest [OF s] obtain h t0 where
    b': "body s = Vector2Add h (direction (snake g)) # tl (body s)" by blast
  let ?nh = "Vector2Add h (direction (snake g))"
  have b0: "body (snake (g\<lparr>snake := s\<rparr>)) = ?nh # tl (body s)" using b' by simp
  let ?k = "fruits_at ?nh (fruits g)"
  from CheckCollisionWithFood_sound(5,6) [OF f b0]
  have sc: "score g1 = score g + int ?k" and sp: "speed g1 = (speed_up ^^ ?k) (speed g)"
    by simp_all
  from assms(2) have nn: "0 \<le> score g" and sg: "speed g = (speed_up ^^ nat (score g)) 0.2"
    by (simp_all add: speed_ok_def)
  from nn have "nat (score g + int ?k) = ?k + nat (score g)" by simp
  with sc sp sg nn have "speed_ok g1"
    by (simp add: speed_ok_def funpow_add)
  with CheckCollisionWithEdges_cases [OF e] speed_ok_GameOver_wall [of rnd g1 g2]
  have "speed_ok g2" by blast
  with CheckCollisionsWithTail_cases [OF t] speed_ok_GameOver_wall [of rnd g2 g']
  show ?thesis by blast
qed

lemma Game_init_sound:
  assumes "Game_init rnd = Inr g"
  shows "food_free g" and "speed_ok g"
proof -
  from assms obtain fs j where
    p: "push_fruits rnd 3 (body Snake_init) 0 [] = Inr (fs, j)" and
    g: "fruits g = fs" "snake g = Snake_init" "score g = 0" "speed g = 0.2"
    by (cases "push_fruits rnd 3 (body Snake_init) 0 []") (auto simp: Game_init_def)
  from push_fruits_sound [OF p] g show "food_free g"
    by (simp add: food_free_def)
  from g show "speed_ok g" by (simp add: speed_ok_def)
qed

lemma GameOver_sound:
  assumes "GameOver rnd g = Inr g'"
  shows "food_free g'" and "speed_ok g'"
  using GameOver_fruits(2) [OF assms] GameOver_fields(5,8) [OF assms]
  by (simp_all add: food_free_def speed_ok_def)

lemma reachable_invariant:
  "reachable rnd g \<Longrightarrow> food_free g \<and> speed_ok g"
proof (induction rule: reachable.induct)
  case (start g)
  then show ?case by (simp add: Game_init_sound)
next
  case (iteration g inp g')
  from frame_cases [OF iteration.hyps(2)] obtain ga gb where
    a: "same_core g ga" and u: "gb = ga \<or> Update rnd ga = Inr gb" and b: "same_core gb g'"
    by blast
  from a iteration.IH have "food_free ga \<and> speed_ok ga"
    by (simp add: food_free_same_core speed_ok_same_core)
  with u have "food_free gb \<and> speed_ok gb"
    using Update_food_free Update_speed_ok by blast
  with b show ?case
    by (simp add: food_free_same_core speed_ok_same_core)
next
  case (tick g g')
  then show ?case using Update_food_free Update_speed_ok by blast
next
  case (round_end g g')
  then show ?case by (simp add: GameOver_sound)
qed

subsection \<open>The effect of one tick\<close>

lemma finds_free_mono:
  "finds_free rnd occ \<Longrightarrow> set occ' \<subseteq> set occ \<Longrightarrow> finds_free rnd occ'"
  unfolding finds_free_def ElementInDeque_set by blast

lemma in_grid_not_outside: "in_grid c \<Longrightarrow> \<not> head_outside c"
  by (auto simp: in_grid_def head_outside_def cellcount_def)

lemma fruits_at_pos: "0 < fruits_at c fs \<Longrightarrow> \<exists>f \<in> set fs. position f = c"
  by (induction fs) (auto simp: fruits_at_def split: if_splits)

lemma Snake_Update_returns:
  assumes "body s = h # t"
  shows "\<exists>s'. Snake_Update s = Inr s' \<and>
           body s' = Vector2Add h (direction s) # (if addSegment s then h # t else butlast (h # t)) \<and>
           direction s' = direction s \<and> \<not> addSegment s'"
  using assms by (auto simp: Snake_Update_def Let_def)

lemma Update_eat:
  assumes run: "running g" and b: "body (snake g) = h # t" and ff: "food_free g"
    and k: "0 < fruits_at (Vector2Add h (direction (snake g))) (fruits g)"
    and fr: "finds_free rnd (Vector2Add h (direction (snake g)) # h # t)"
  shows "\<exists>g'. Update rnd g = Inr g' \<and>
          score g' = score g + int (fruits_at (Vector2Add h (direction (snake g))) (fruits g)) \<and>
          speed g' = (speed_up ^^ fruits_at (Vector2Add h (direction (snake g))) (fruits g)) (speed g) \<and>
          played g' = played g @ replicate (fruits_at (Vector2Add h (direction (snake g))) (fruits g)) Eat \<and>
          addSegment (snake g') \<and>
          body (snake g') = Vector2Add h (direction (snake g)) #
                              (if addSegment (snake g) then h # t else butlast (h # t)) \<and>
          direction (snake g') = direction (snake g)"
proof -
  let ?nh = "Vector2Add h (direction (snake g))"
  let ?rest = "if addSegment (snake g) then h # t else butlast (h # t)"
  from Snake_Update_returns [OF b] obtain s where
    s: "Snake_Update (snake g) = Inr s" and bs: "body s = ?nh # ?rest"
    and ds: "direction s = direction (snake g)" and as: "\<not> addSegment s"
    by blast
  have sub: "set ?rest \<subseteq> set (h # t)"
    by (auto dest: in_set_butlastD)
  let ?g0 = "g\<lparr>snake := s\<rparr>"
  have b0: "body (snake ?g0) = ?nh # ?rest" using bs by simp
  from sub have "set (?nh # ?rest) \<subseteq> set (?nh # h # t)" by auto
  from finds_free_mono [OF fr this] b0 have "finds_free rnd (body (snake ?g0))" by simp
  from CheckCollisionWithFood_returns [OF this b0] obtain g1 where
    f: "CheckCollisionWithFood rnd ?g0 = Inr g1" by blast
  note f1 = CheckCollisionWithFood_sound [OF f b0]
  from fruits_at_pos [OF k] obtain x where "x \<in> set (fruits g)" and "position x = ?nh" by blast
  with ff b have off: "?nh \<notin> set (h # t)" and grid: "in_grid ?nh"
    by (auto simp: food_free_def)
  from f1(1) b0 have b1: "body (snake g1) = ?nh # ?rest" by simp
  from in_grid_not_outside [OF grid] have e: "CheckCollisionWithEdges rnd g1 = Inr g1"
    by (simp add: CheckCollisionWithEdges_eq [OF b1])
  from off sub have "?nh \<notin> set ?rest" by blast
  then have tl: "CheckCollisionsWithTail rnd g1 = Inr g1"
    by (simp add: CheckCollisionsWithTail_eq [OF b1])
  from run s f e tl have u: "Update rnd g = Inr g1"
    by (simp add: Update_def)
  from f1(5,6,7,8) k have "score g1 = score g + int (fruits_at ?nh (fruits g))"
    and "speed g1 = (speed_up ^^ fruits_at ?nh (fruits g)) (speed g)"
    and "played g1 = played g @ replicate (fruits_at ?nh (fruits g)) Eat"
    and "addSegment (snake g1)"
    by simp_all
  with u b1 f1(2) ds show ?thesis by simp
qed

lemma GameOver_wall_tail_quiet:
  assumes "GameOver_wall rnd g = Inr g'"
  shows "CheckCollisionsWithTail rnd g' = Inr g'"
  using CheckCollisionsWithTail_eq [OF GameOver_wall_sound(2) [OF assms], of rnd] by simp

lemma Update_wall_count:
  assumes "Update rnd g = Inr g'"
  shows "\<exists>ev. played g' = played g @ ev \<and> count_list ev Wall \<le> 1"
proof (cases "running g")
  case False
  with assms have "g' = g" by (simp add: Update_def)
  then show ?thesis by simp
next
  case True
  from Update_running [OF assms True] obtain s g1 g2 where
    s: "Snake_Update (snake g) = Inr s" and
    f: "CheckCollisionWithFood rnd (g\<lparr>snake := s\<rparr>) = Inr g1" and
    e: "CheckCollisionWithEdges rnd g1 = Inr g2" and
    t: "CheckCollisionsWithTail rnd g2 = Inr g'" by blast
  from Snake_Update_rest [OF s] obtain h t0 where
    b': "body s = Vector2Add h (direction (snake g)) # tl (body s)" by blast
  then have b0: "body (snake (g\<lparr>snake := s\<rparr>)) = Vector2Add h (direction (snake g)) # tl (body s)"
    by simp
  let ?eats = "replicate (fruits_at (Vector2Add h (direction (snake g))) (fruits g)) Eat"
  from CheckCollisionWithFood_sound(7) [OF f b0] have p1: "played g1 = played g @ ?eats"
    by simp
  have c0: "count_list ?eats Wall = 0" by (simp add: count_list_0_iff)
  from CheckCollisionWithEdges_cases [OF e] show ?thesis
  proof
    assume "g2 = g1"
    with CheckCollisionsWithTail_cases [OF t] have "g' = g1 \<or> GameOver_wall rnd g1 = Inr g'"
      by simp
    then show ?thesis
    proof
      assume "g' = g1"
      with p1 c0 show ?thesis by simp
    next
      assume "GameOver_wall rnd g1 = Inr g'"
      from GameOver_wall_sound(5) [OF this] p1 have "played g' = played g @ (?eats @ [Wall])"
        by simp
      moreover have "count_list (?eats @ [Wall]) Wall \<le> 1" using c0 by simp
      ultimately show ?thesis by blast
    qed
  next
    assume w: "GameOver_wall rnd g1 = Inr g2"
    from GameOver_wall_tail_quiet [OF w] t have "g' = g2" by simp
    with GameOver_wall_sound(5) [OF w] p1 have "played g' = played g @ (?eats @ [Wall])"
      by simp
    moreover have "count_list (?eats @ [Wall]) Wall \<le> 1" using c0 by simp
    ultimately show ?thesis by blast
  qed
qed

subsection \<open>The growth flag at a round end\<close>

lemma GameOver_wall_flag:
  assumes "GameOver_wall rnd g = Inr g'"
  shows "addSegment (snake g') = addSegment (snake g)"
proof -
  from GameOver_wall_fields [OF assms] obtain g1 where
    g1: "GameOver rnd g = Inr g1" and g': "g' = PlaySound Wall g1" by blast
  from GameOver_fields(3) [OF g1] show ?thesis
    by (simp add: g' PlaySound_def Snake_Reset_simps)
qed

lemma Update_round_end_flag:
  assumes u: "Update rnd g = Inr g'" and ff: "food_free g"
    and w: "played g' = played g @ ev" "Wall \<in> set ev"
  shows "\<not> addSegment (snake g') \<and> body (snake g') = [(6, 9), (5, 9), (4, 9)]"
proof (cases "running g")
  case False
  with u have "g' = g" by (simp add: Update_def)
  with w show ?thesis by simp
next
  case True
  from Update_running [OF u True] obtain s g1 g2 where
    s: "Snake_Update (snake g) = Inr s" and
    f: "CheckCollisionWithFood rnd (g\<lparr>snake := s\<rparr>) = Inr g1" and
    e: "CheckCollisionWithEdges rnd g1 = Inr g2" and
    t: "CheckCollisionsWithTail rnd g2 = Inr g'" by blast
  from Snake_Update_sound [OF s] obtain h t0 where
    b: "body (snake g) = h # t0" and
    bs: "body s = Vector2Add h (direction (snake g)) #
                    (if addSegment (snake g) then h # t0 else butlast (h # t0))" and
    ns: "\<not> addSegment s" by blast
  let ?nh = "Vector2Add h (direction (snake g))"
  let ?rest = "if addSegment (snake g) then h # t0 else butlast (h # t0)"
  let ?k = "fruits_at ?nh (fruits g)"
  have sub: "set ?rest \<subseteq> set (h # t0)" by (auto dest: in_set_butlastD)
  have b0: "body (snake (g\<lparr>snake := s\<rparr>)) = ?nh # ?rest" using bs by simp
  note f1 = CheckCollisionWithFood_sound [OF f b0]
  from f1(1) b0 have b1: "body (snake g1) = ?nh # ?rest" by simp
  from f1(7) have p1: "played g1 = played g @ replicate ?k Eat" by simp
  from f1(8) ns have a1: "addSegment (snake g1) = (0 < ?k)" by simp
  show ?thesis
  proof (cases "0 < ?k")
    case True
    from fruits_at_pos [OF True] obtain x where "x \<in> set (fruits g)" and "position x = ?nh"
      by blast
    with ff b have off: "?nh \<notin> set (h # t0)" and grid: "in_grid ?nh"
      by (auto simp: food_free_def)
    from in_grid_not_outside [OF grid] e have "g2 = g1"
      by (simp add: CheckCollisionWithEdges_eq [OF b1])
    moreover from off sub have "?nh \<notin> set ?rest" by blast
    ultimately have "g' = g1" using t
      by (simp add: CheckCollisionsWithTail_eq [OF b1])
    with p1 w have "Wall \<in> set (replicate ?k Eat)" by simp
    then show ?thesis by simp
  next
    case False
    with a1 have n1: "\<not> addSegment (snake g1)" by simp
    from CheckCollisionWithEdges_cases [OF e] show ?thesis
    proof
      assume g2: "g2 = g1"
      with CheckCollisionsWithTail_cases [OF t] have "g' = g1 \<or> GameOver_wall rnd g1 = Inr g'"
        by simp
      then show ?thesis
      proof
        assume "g' = g1"
        with p1 w False show ?thesis by simp
      next
        assume "GameOver_wall rnd g1 = Inr g'"
        from GameOver_wall_flag [OF this] GameOver_wall_sound(2) [OF this] n1
        show ?thesis by simp
      qed
    next
      assume gw: "GameOver_wall rnd g1 = Inr g2"
      from GameOver_wall_tail_quiet [OF gw] t have "g' = g2" by simp
      with GameOver_wall_flag [OF gw] GameOver_wall_sound(2) [OF gw] n1
      show ?thesis by simp
    qed
  qed
qed

subsection \<open>The tick interval in closed form\<close>

lemma speed_up_below: "v < 0.07 \<Longrightarrow> (speed_up ^^ n) v = v"
  by (induction n) (simp_all add: speed_up_def)

lemma speed_up_above:
  "(\<forall>j<n. (0.07::real) \<le> 0.2 * 0.98 ^ j) \<Longrightarrow> (speed_up ^^ n) 0.2 = 0.2 * 0.98 ^ n"
proof (induction n)
  case 0
  then show ?case by simp
next
  case (Suc n)
  then have ih: "(speed_up ^^ n) 0.2 = 0.2 * (0.98::real) ^ n"
    and ge: "0.07 \<le> 0.2 * (0.98::real) ^ n"
    by simp_all
  have "(speed_up ^^ Suc n) 0.2 = speed_up ((speed_up ^^ n) 0.2)" by simp
  also have "\<dots> = speed_up (0.2 * 0.98 ^ n)" by (simp only: ih)
  also have "\<dots> = 0.2 * 0.98 ^ n * 0.98" using ge unfolding speed_up_def by simp
  finally show ?case by simp
qed

lemma floor_51: "(0.07::real) \<le> 0.2 * 0.98 ^ 51"
  by (simp add: power_numeral_reduce)

lemma floor_52: "0.2 * 0.98 ^ 52 < (0.07::real)"
  by (simp add: power_numeral_reduce)

lemma floor_upto_51: "j < 52 \<Longrightarrow> (0.07::real) \<le> 0.2 * 0.98 ^ j"
proof -
  assume "j < 52"
  then have "(0.98::real) ^ 51 \<le> 0.98 ^ j"
    by (intro power_decreasing) simp_all
  then have "0.2 * (0.98::real) ^ 51 \<le> 0.2 * 0.98 ^ j"
    by (intro mult_left_mono) simp_all
  with floor_51 show ?thesis by (rule order_trans)
qed

lemma speed_up_closed: "(speed_up ^^ n) 0.2 = 0.2 * 0.98 ^ (min n 52)"
proof (cases "n \<le> 52")
  case True
  then have "\<forall>j<n. (0.07::real) \<le> 0.2 * 0.98 ^ j"
    using floor_upto_51 by simp
  from speed_up_above [OF this] True show ?thesis by (simp add: min_def)
next
  case False
  then obtain m where n: "n = m + 52" by (metis add.commute le_Suc_ex nat_le_linear)
  have "\<forall>j<52. (0.07::real) \<le> 0.2 * 0.98 ^ j"
    using floor_upto_51 by simp
  from speed_up_above [OF this] have a: "(speed_up ^^ 52) 0.2 = 0.2 * 0.98 ^ 52" .
  have "(speed_up ^^ n) 0.2 = (speed_up ^^ m) ((speed_up ^^ 52) 0.2)"
    by (simp add: n funpow_add)
  also have "\<dots> = 0.2 * 0.98 ^ 52"
    unfolding a by (rule speed_up_below [OF floor_52])
  finally show ?thesis using False by (simp add: min_def)
qed

subsection \<open>A concrete run\<close>

lemma Game_init_stacked: "Game_init draws_stacked = Inr stacked_start"
  by code_simp

lemma frame_stacked:
  "frame draws_stacked ((key_of (0, 0))\<lparr>start_pressed := True\<rparr>) stacked_start
     = Inr stacked_running"
  by code_simp

lemma Update_stacked: "Update draws_stacked stacked_running = Inr stacked_fed"
  by code_simp

lemma reachable_stacked_running: "reachable draws_stacked stacked_running"
  using reachable.iteration [OF reachable.start [OF Game_init_stacked] frame_stacked] .


section \<open>The claims\<close>

text \<open>
  C1. \<open>advance()\<close> on a snake with head \<open>h\<close> returns, with \<open>h + direction\<close> in front of
  the body. With the pending-growth flag set, the flag is cleared and nothing is
  removed, so the length grows by exactly one; otherwise the last cell is removed and
  the length is unchanged. The direction is untouched. From \<open>[(6,9),(5,9),(4,9)]\<close> with
  direction \<open>(1,0)\<close> and no pending growth, one call yields \<open>[(7,9),(6,9),(5,9)]\<close>.
\<close>

theorem C1_advance:
  assumes "body s = h # t"
  shows "(\<exists>s'. Snake_Update s = Inr s' \<and>
            body s' = Vector2Add h (direction s) #
                        (if addSegment s then body s else butlast (body s)) \<and>
            length (body s') = (if addSegment s then length (body s) + 1 else length (body s)) \<and>
            addSegment s' = False \<and>
            direction s' = direction s) \<and>
         Snake_Update \<lparr>addSegment = False, body = [(6, 9), (5, 9), (4, 9)], direction = (1, 0)\<rparr>
           = Inr \<lparr>addSegment = False, body = [(7, 9), (6, 9), (5, 9)], direction = (1, 0)\<rparr>"
  using assms by (auto simp: Snake_Update_def Vector2Add_def Let_def)

theorem C1_advance_witness:
  "(\<exists>s'. Snake_Update \<lparr>addSegment = True, body = [(2, 3), (2, 4)], direction = (0, - 1)\<rparr> = Inr s' \<and>
         body s' = [(2, 2), (2, 3), (2, 4)] \<and> length (body s') = 3 \<and> addSegment s' = False) \<and>
   (\<exists>s'. Snake_Update \<lparr>addSegment = False, body = [(2, 3), (2, 4)], direction = (0, - 1)\<rparr> = Inr s' \<and>
         body s' = [(2, 2), (2, 3)] \<and> length (body s') = 2 \<and> addSegment s' = False)"
  using C1_advance [of "\<lparr>addSegment = True, body = [(2, 3), (2, 4)], direction = (0, - 1)\<rparr>" "(2, 3)" "[(2, 4)]"]
        C1_advance [of "\<lparr>addSegment = False, body = [(2, 3), (2, 4)], direction = (0, - 1)\<rparr>" "(2, 3)" "[(2, 4)]"]
  by (auto simp: Vector2Add_def)

text \<open>
  C4. Whenever \<open>GenerateRandomPos\<close> returns, the cell returned is outside the occupied
  cells given (and inside the grid); and it does return as soon as the random sequence
  holds, at one of the positions the loop reads, a cell outside the occupied ones, which
  needs the occupied cells not to cover the grid.
\<close>

theorem C4_spawn_free:
  "(GenerateRandomPos rnd i occ = Some (p, j) \<longrightarrow>
      \<not> ElementInDeque p occ \<and> p \<notin> set occ \<and> in_grid p) \<and>
   (\<not> ElementInDeque (GenerateRandomCell rnd (i + 2 * k)) occ \<longrightarrow>
      (\<exists>q m. GenerateRandomPos rnd i occ = Some (q, m) \<and> q \<notin> set occ))"
proof (intro conjI impI)
  assume "GenerateRandomPos rnd i occ = Some (p, j)"
  from GenerateRandomPos_sound [OF this]
  show "\<not> ElementInDeque p occ" and "p \<notin> set occ" and "in_grid p"
    by (simp_all add: ElementInDeque_set)
next
  assume "\<not> ElementInDeque (GenerateRandomCell rnd (i + 2 * k)) occ"
  from GenerateRandomPos_returns [OF this]
  obtain y where y: "GenerateRandomPos rnd i occ = Some y" by blast
  from GenerateRandomPos_sound [OF y] have "fst y \<notin> set occ"
    by (simp add: ElementInDeque_set)
  with y show "\<exists>q m. GenerateRandomPos rnd i occ = Some (q, m) \<and> q \<notin> set occ"
    by (cases y) auto
qed

theorem C4_spawn_free_witness:
  "GenerateRandomPos draws_retry 0 [(6, 9), (5, 9), (4, 9)] = Some ((3, 4), 6) \<and>
   \<not> ElementInDeque (GenerateRandomCell draws_retry (0 + 2 * 2)) [(6, 9), (5, 9), (4, 9)] \<and>
   ((3, 4) :: Vector2) \<notin> set [(6, 9), (5, 9), (4, 9)] \<and> in_grid (3, 4)"
  using C4_spawn_free [of draws_retry 0 "[(6, 9), (5, 9), (4, 9)]" "(3, 4)" 6 2]
  by (simp add: GenerateRandomPos.simps GenerateRandomCell_def GetRandomValue_def
        cellcount_def draws_retry_def)

text \<open>
  C2. On a snake with head \<open>h\<close>, the boundary check returns (given that the spawns of
  a round end find free cells) and runs \<open>GameOver\<close>, followed by the collision sound,
  exactly when a coordinate of \<open>h\<close> is \<open>-1\<close> or \<open>25\<close>: the game is then over and no
  longer running; otherwise the game is left as it was. The heads \<open>(25,9)\<close> and
  \<open>(-1,9)\<close> are outside, \<open>(24,9)\<close> is not.
\<close>

theorem C2_boundary:
  assumes "body (snake g) = h # t" and "finds_free rnd [(6, 9), (5, 9), (4, 9)]"
  shows "(\<exists>g'. CheckCollisionWithEdges rnd g = Inr g' \<and>
              (if head_outside h
               then GameOver_wall rnd g = Inr g' \<and> game_over g' \<and> \<not> running g' \<and>
                    played g' = played g @ [Wall]
               else g' = g)) \<and>
         head_outside h = (fst h = - 1 \<or> fst h = 25 \<or> snd h = - 1 \<or> snd h = 25) \<and>
         head_outside (25, 9) \<and> head_outside (- 1, 9) \<and> \<not> head_outside (24, 9)"
proof -
  have eq: "CheckCollisionWithEdges rnd g = (if head_outside h then GameOver_wall rnd g else Inr g)"
    by (rule CheckCollisionWithEdges_eq [OF assms(1)])
  from GameOver_returns [OF assms(2), of g] obtain g0 where g0: "GameOver rnd g = Inr g0"
    by blast
  then have w: "GameOver_wall rnd g = Inr (PlaySound Wall g0)"
    by (simp add: GameOver_wall_def)
  have "game_over (PlaySound Wall g0) \<and> \<not> running (PlaySound Wall g0) \<and>
        played (PlaySound Wall g0) = played g @ [Wall]"
    using GameOver_fields(1,2,9) [OF g0] by (simp add: PlaySound_def)
  with eq w have "\<exists>g'. CheckCollisionWithEdges rnd g = Inr g' \<and>
              (if head_outside h
               then GameOver_wall rnd g = Inr g' \<and> game_over g' \<and> \<not> running g' \<and>
                    played g' = played g @ [Wall]
               else g' = g)"
    by simp
  then show ?thesis
    by (auto simp: head_outside_def cellcount_def)
qed

theorem C2_boundary_witness:
  "(\<exists>g'. CheckCollisionWithEdges draws_retry
            (sample_game False [(25, 9), (24, 9), (23, 9)] (1, 0) []) = Inr g' \<and>
         game_over g' \<and> \<not> running g' \<and> played g' = [Wall]) \<and>
   (\<exists>g'. CheckCollisionWithEdges draws_retry
            (sample_game False [(- 1, 9), (0, 9), (1, 9)] (- 1, 0) []) = Inr g' \<and>
         game_over g' \<and> \<not> running g' \<and> played g' = [Wall]) \<and>
   CheckCollisionWithEdges draws_retry (sample_game False [(24, 9), (23, 9), (22, 9)] (1, 0) [])
     = Inr (sample_game False [(24, 9), (23, 9), (22, 9)] (1, 0) [])"
  using C2_boundary [of "sample_game False [(25, 9), (24, 9), (23, 9)] (1, 0) []"
                        "(25, 9)" "[(24, 9), (23, 9)]" draws_retry]
        C2_boundary [of "sample_game False [(- 1, 9), (0, 9), (1, 9)] (- 1, 0) []"
                        "(- 1, 9)" "[(0, 9), (1, 9)]" draws_retry]
        C2_boundary [of "sample_game False [(24, 9), (23, 9), (22, 9)] (1, 0) []"
                        "(24, 9)" "[(23, 9), (22, 9)]" draws_retry]
        finds_free_draws_retry [of "[(6, 9), (5, 9), (4, 9)]"]
  by (auto simp: sample_game_def)



text \<open>
  C6. With the snake moving in one of the four directions, an iteration in which the key
  of direction \<open>d\<close> alone is pressed leaves the game as it was when \<open>d\<close> is the opposite
  of the current direction, and otherwise makes \<open>d\<close> the direction (and sets
  \<open>running\<close>); the body is untouched, and the next \<open>Snake::Update\<close> moves the head by
  the resulting direction. While the game runs, this is the whole effect of such an
  iteration. With direction \<open>(1,0)\<close>, the key of \<open>(-1,0)\<close> leaves \<open>(1,0)\<close>.
\<close>

theorem C6_setDirection:
  assumes "is_direction (direction (snake g))" and "is_direction d"
  shows "direction_keys (key_of d) g =
           (if d = opposite (direction (snake g)) then g else set_direction d g) \<and>
         direction (snake (direction_keys (key_of d) g)) =
           (if d = opposite (direction (snake g)) then direction (snake g) else d) \<and>
         body (snake (direction_keys (key_of d) g)) = body (snake g) \<and>
         (running g \<and> \<not> game_over g \<longrightarrow>
            frame rnd (key_of d) g = Inr (direction_keys (key_of d) g)) \<and>
         (\<forall>h t. body (snake g) = h # t \<longrightarrow>
            (\<exists>s'. Snake_Update (snake (direction_keys (key_of d) g)) = Inr s' \<and>
                  hd (body s') =
                    Vector2Add h (if d = opposite (direction (snake g))
                                  then direction (snake g) else d)))"
proof -
  let ?g' = "direction_keys (key_of d) g"
  have eq: "?g' = (if d = opposite (direction (snake g)) then g else set_direction d g)"
    by (rule direction_keys_single [OF assms])
  have dir: "direction (snake ?g') =
           (if d = opposite (direction (snake g)) then direction (snake g) else d)"
    by (simp add: eq set_direction_def)
  have bod: "body (snake ?g') = body (snake g)"
    by (simp add: eq set_direction_def)
  have fr: "running g \<and> \<not> game_over g \<longrightarrow> frame rnd (key_of d) g = Inr ?g'"
    by (simp add: frame_keys_only)
  have adv: "\<forall>h t. body (snake g) = h # t \<longrightarrow>
            (\<exists>s'. Snake_Update (snake ?g') = Inr s' \<and>
                  hd (body s') =
                    Vector2Add h (if d = opposite (direction (snake g))
                                  then direction (snake g) else d))"
  proof (intro allI impI)
    fix h t
    assume "body (snake g) = h # t"
    with bod have "body (snake ?g') = h # t" by simp
    from Snake_Update_head [OF this] show "\<exists>s'. Snake_Update (snake ?g') = Inr s' \<and>
                  hd (body s') =
                    Vector2Add h (if d = opposite (direction (snake g))
                                  then direction (snake g) else d)"
      by (simp only: dir)
  qed
  from eq dir bod fr adv show ?thesis by (intro conjI)
qed

theorem C6_setDirection_witness:
  "direction (snake (direction_keys (key_of (- 1, 0))
       (sample_game False [(6, 9), (5, 9), (4, 9)] (1, 0) []))) = (1, 0) \<and>
   direction_keys (key_of (- 1, 0)) (sample_game False [(6, 9), (5, 9), (4, 9)] (1, 0) [])
     = sample_game False [(6, 9), (5, 9), (4, 9)] (1, 0) [] \<and>
   direction (snake (direction_keys (key_of (0, - 1))
       (sample_game False [(6, 9), (5, 9), (4, 9)] (1, 0) []))) = (0, - 1) \<and>
   (\<exists>s'. Snake_Update (snake (direction_keys (key_of (0, - 1))
             (sample_game False [(6, 9), (5, 9), (4, 9)] (1, 0) []))) = Inr s' \<and>
         hd (body s') = (6, 8)) \<and>
   frame draws_retry (key_of (- 1, 0)) (sample_game False [(6, 9), (5, 9), (4, 9)] (1, 0) [])
     = Inr (sample_game False [(6, 9), (5, 9), (4, 9)] (1, 0) [])"
proof -
  let ?g = "sample_game False [(6, 9), (5, 9), (4, 9)] (1, 0) []"
  have c: "is_direction (direction (snake ?g))" and b: "body (snake ?g) = [(6, 9), (5, 9), (4, 9)]"
    and d: "direction (snake ?g) = (1, 0)" and r: "running ?g" "\<not> game_over ?g"
    by (simp_all add: sample_game_def is_direction_def)
  have l: "is_direction (- 1, 0)" and u: "is_direction (0, - 1)"
    by (simp_all add: is_direction_def)
  from C6_setDirection [OF c l, of draws_retry] C6_setDirection [OF c u, of draws_retry] b d r
  show ?thesis
    by (auto simp: opposite_def Vector2Add_def)
qed

text \<open>
  C7, as the code has it. \<open>Snake::Reset\<close> restores the body \<open>[(6,9),(5,9),(4,9)]\<close> and the
  direction \<open>(1,0)\<close> and leaves the pending-growth flag as it was. The first
  \<open>Snake::Update\<close> after it therefore keeps the length at 3 when the flag was clear, and
  makes it 4 when the flag was set. In the game the reset runs inside a tick, and a
  tick that ends the round (it plays the collision sound), taken from a state whose
  fruits lie off the snake and inside the grid as in every reachable state, leaves the
  flag clear: there the first \<open>Snake::Update\<close> of the next round keeps the length at 3.
\<close>

theorem C7_reset:
  assumes "Update rnd g = Inr g'" and "food_free g"
    and "played g' = played g @ ev" and "Wall \<in> set ev"
  shows "body (Snake_Reset s) = [(6, 9), (5, 9), (4, 9)] \<and>
         direction (Snake_Reset s) = (1, 0) \<and>
         addSegment (Snake_Reset s) = addSegment s \<and>
         (\<exists>s'. Snake_Update (Snake_Reset s) = Inr s' \<and>
               body s' = (if addSegment s then [(7, 9), (6, 9), (5, 9), (4, 9)]
                          else [(7, 9), (6, 9), (5, 9)]) \<and>
               length (body s') = (if addSegment s then 4 else 3)) \<and>
         \<not> addSegment (snake g') \<and>
         body (snake g') = [(6, 9), (5, 9), (4, 9)] \<and>
         (\<exists>s'. Snake_Update (snake g') = Inr s' \<and> length (body s') = 3)"
proof -
  have r: "body (Snake_Reset s) = [(6, 9), (5, 9), (4, 9)] \<and>
         direction (Snake_Reset s) = (1, 0) \<and>
         addSegment (Snake_Reset s) = addSegment s \<and>
         (\<exists>s'. Snake_Update (Snake_Reset s) = Inr s' \<and>
               body s' = (if addSegment s then [(7, 9), (6, 9), (5, 9), (4, 9)]
                          else [(7, 9), (6, 9), (5, 9)]) \<and>
               length (body s') = (if addSegment s then 4 else 3))"
    by (simp add: Snake_Reset_def Snake_Update_def Vector2Add_def)
  from Update_round_end_flag [OF assms]
  have n: "\<not> addSegment (snake g')" and b: "body (snake g') = (6, 9) # [(5, 9), (4, 9)]"
    by simp_all
  from Snake_Update_returns [OF b] n
  have "\<exists>s'. Snake_Update (snake g') = Inr s' \<and> length (body s') = 3"
    by auto
  with r n b show ?thesis by simp
qed

theorem C7_reset_witness:
  "Update draws_retry (sample_game False [(24, 9), (23, 9), (22, 9)] (1, 0) [])
     = Inr ((sample_game False [(6, 9), (5, 9), (4, 9)] (1, 0)
               [\<lparr>position = (9, 5), textureIndex = 2\<rparr>,
                \<lparr>position = (3, 4), textureIndex = 1\<rparr>,
                \<lparr>position = (0, 0), textureIndex = 0\<rparr>])
            \<lparr>score := 0, running := False, game_over := True, high_score := 4,
              temp_score := 4, seed := 9, played := [Wall]\<rparr>) \<and>
   food_free (sample_game False [(24, 9), (23, 9), (22, 9)] (1, 0) []) \<and>
   Wall \<in> set [Wall] \<and>
   addSegment (Snake_Reset \<lparr>addSegment = True, body = [(3, 3)], direction = (0, 1)\<rparr>) \<and>
   (\<exists>s'. Snake_Update
           (snake ((sample_game False [(6, 9), (5, 9), (4, 9)] (1, 0)
               [\<lparr>position = (9, 5), textureIndex = 2\<rparr>,
                \<lparr>position = (3, 4), textureIndex = 1\<rparr>,
                \<lparr>position = (0, 0), textureIndex = 0\<rparr>])
            \<lparr>score := 0, running := False, game_over := True, high_score := 4,
              temp_score := 4, seed := 9, played := [Wall]\<rparr>)) = Inr s' \<and>
         length (body s') = 3)"
proof -
  let ?g = "sample_game False [(24, 9), (23, 9), (22, 9)] (1, 0) []"
  let ?g' = "(sample_game False [(6, 9), (5, 9), (4, 9)] (1, 0)
               [\<lparr>position = (9, 5), textureIndex = 2\<rparr>,
                \<lparr>position = (3, 4), textureIndex = 1\<rparr>,
                \<lparr>position = (0, 0), textureIndex = 0\<rparr>])
            \<lparr>score := 0, running := False, game_over := True, high_score := 4,
              temp_score := 4, seed := 9, played := [Wall]\<rparr>"
  have u: "Update draws_retry ?g = Inr ?g'" by code_simp
  have f: "food_free ?g" by (simp add: food_free_def sample_game_def)
  have p: "played ?g' = played ?g @ [Wall]" by (simp add: sample_game_def)
  have w: "Wall \<in> set [Wall]" by simp
  from C7_reset [OF u f p w, of "\<lparr>addSegment = True, body = [(3, 3)], direction = (0, 1)\<rparr>"]
    u f w
  show ?thesis by simp
qed

text \<open>
  C7 as stated fails: on a snake whose flag is set, \<open>Snake::Reset\<close> leaves it set, and the
  next \<open>Snake::Update\<close> lengthens the reset snake to four cells.
\<close>

theorem C7_reset_counterexample:
  "addSegment (Snake_Reset \<lparr>addSegment = True, body = [(9, 9), (8, 9), (7, 9), (6, 9)],
                            direction = (1, 0)\<rparr>) \<and>
   Snake_Update (Snake_Reset \<lparr>addSegment = True, body = [(9, 9), (8, 9), (7, 9), (6, 9)],
                              direction = (1, 0)\<rparr>)
     = Inr \<lparr>addSegment = False, body = [(7, 9), (6, 9), (5, 9), (4, 9)], direction = (1, 0)\<rparr>"
  by (simp add: Snake_Reset_def Snake_Update_def Vector2Add_def)

text \<open>
  C5. In every state reachable from the constructed game by iterations of the main
  loop, ticks and round ends, no fruit lies on a cell of the snake's body; and the same
  holds again after any further tick and after any further round end.
\<close>

theorem C5_food_off_snake:
  assumes "reachable rnd g"
  shows "(\<forall>f \<in> set (fruits g). position f \<notin> set (body (snake g))) \<and>
         (\<forall>g'. Update rnd g = Inr g' \<longrightarrow>
               (\<forall>f \<in> set (fruits g'). position f \<notin> set (body (snake g')))) \<and>
         (\<forall>g'. GameOver rnd g = Inr g' \<longrightarrow>
               (\<forall>f \<in> set (fruits g'). position f \<notin> set (body (snake g'))))"
proof -
  from reachable_invariant [OF assms] have ff: "food_free g" by simp
  have "\<And>g'. Update rnd g = Inr g' \<Longrightarrow> food_free g'"
    using Update_food_free ff by blast
  moreover have "\<And>g'. GameOver rnd g = Inr g' \<Longrightarrow> food_free g'"
    using GameOver_sound(1) by blast
  ultimately show ?thesis using ff unfolding food_free_def by blast
qed

theorem C5_food_off_snake_witness:
  "reachable draws_stacked stacked_running \<and>
   Update draws_stacked stacked_running = Inr stacked_fed \<and>
   set (map position (fruits stacked_running)) \<inter> set (body (snake stacked_running)) = {} \<and>
   set (map position (fruits stacked_fed)) \<inter> set (body (snake stacked_fed)) = {} \<and>
   (\<exists>g'. GameOver draws_stacked stacked_running = Inr g' \<and>
         set (map position (fruits g')) \<inter> set (body (snake g')) = {})"
proof -
  have "finds_free draws_stacked [(6, 9), (5, 9), (4, 9)]"
    by (rule finds_free_draws_stacked) simp
  from GameOver_returns [OF this] obtain g' where
    "GameOver draws_stacked stacked_running = Inr g'" by blast
  with C5_food_off_snake [OF reachable_stacked_running] reachable_stacked_running Update_stacked
  show ?thesis by auto
qed



text \<open>
  C9, as the code has it. A tick, from any state, plays the collision sound at most
  once. When the boundary check fires, \<open>GameOver\<close> has put the snake back on its three
  initial cells before the self-collision check runs, and that check then leaves the
  game as it is; the second condition of the boundary check reads the reset head in the
  same way.
\<close>

theorem C9_one_collision_signal:
  assumes "Update rnd g = Inr g'"
  shows "(\<exists>ev. played g' = played g @ ev \<and> count_list ev Wall \<le> 1) \<and>
         (\<forall>g1 g2 h t. CheckCollisionWithEdges rnd g1 = Inr g2 \<and> body (snake g1) = h # t \<and>
                      head_outside h \<longrightarrow>
            body (snake g2) = [(6, 9), (5, 9), (4, 9)] \<and>
            CheckCollisionsWithTail rnd g2 = Inr g2)"
proof -
  have "body (snake g2) = [(6, 9), (5, 9), (4, 9)] \<and> CheckCollisionsWithTail rnd g2 = Inr g2"
    if e: "CheckCollisionWithEdges rnd g1 = Inr g2" and b: "body (snake g1) = h # t"
      and o: "head_outside h" for g1 g2 h t
  proof -
    from e o have "GameOver_wall rnd g1 = Inr g2"
      by (simp add: CheckCollisionWithEdges_eq [OF b])
    from GameOver_wall_sound(2) [OF this] GameOver_wall_tail_quiet [OF this]
    show ?thesis by simp
  qed
  with Update_wall_count [OF assms] show ?thesis by blast
qed

theorem C9_one_collision_signal_witness:
  "Update draws_retry (sample_game False [(24, 9), (25, 9), (26, 9)] (1, 0) [])
     = Inr ((sample_game False [(6, 9), (5, 9), (4, 9)] (1, 0)
               [\<lparr>position = (9, 5), textureIndex = 2\<rparr>,
                \<lparr>position = (3, 4), textureIndex = 1\<rparr>,
                \<lparr>position = (0, 0), textureIndex = 0\<rparr>])
            \<lparr>score := 0, running := False, game_over := True, high_score := 4,
              temp_score := 4, seed := 9, played := [Wall]\<rparr>) \<and>
   head_outside (25, 9) \<and> ElementInDeque (25, 9) [(24, 9), (25, 9)] \<and>
   (\<exists>ev. [Wall] = [] @ ev \<and> count_list ev Wall \<le> 1)"
proof -
  let ?g = "sample_game False [(24, 9), (25, 9), (26, 9)] (1, 0) []"
  let ?g' = "(sample_game False [(6, 9), (5, 9), (4, 9)] (1, 0)
               [\<lparr>position = (9, 5), textureIndex = 2\<rparr>,
                \<lparr>position = (3, 4), textureIndex = 1\<rparr>,
                \<lparr>position = (0, 0), textureIndex = 0\<rparr>])
            \<lparr>score := 0, running := False, game_over := True, high_score := 4,
              temp_score := 4, seed := 9, played := [Wall]\<rparr>"
  have u: "Update draws_retry ?g = Inr ?g'" by code_simp
  have o: "head_outside (25, 9)" by (simp add: head_outside_def cellcount_def)
  from C9_one_collision_signal [OF u] u o show ?thesis
    by (simp add: sample_game_def)
qed

text \<open>
  C9 as stated fails: no tick from a reachable state plays the collision sound twice.
\<close>

theorem C9_both_fire_counterexample:
  "\<not> (\<exists>rnd g g' ev. reachable rnd g \<and> Update rnd g = Inr g' \<and>
         played g' = played g @ ev \<and> 2 \<le> count_list ev Wall)"
proof
  assume "\<exists>rnd g g' ev. reachable rnd g \<and> Update rnd g = Inr g' \<and>
         played g' = played g @ ev \<and> 2 \<le> count_list ev Wall"
  then obtain rnd g g' ev where u: "Update rnd g = Inr g'"
    and p: "played g' = played g @ ev" and c: "2 \<le> count_list ev Wall" by blast
  from Update_wall_count [OF u] obtain ev' where
    "played g' = played g @ ev'" and "count_list ev' Wall \<le> 1" by blast
  with p c show False by simp
qed

text \<open>
  C10. In a reachable, running game in which \<open>k \<ge> 2\<close> fruits lie on the cell the head
  is about to enter, and whose respawns find free cells, one tick returns with the
  score raised by \<open>k\<close>, \<open>speed_up\<close> applied \<open>k\<close> times and \<open>k\<close> eating sounds played,
  with no round end; the pending-growth flag is set, the tick itself changes the length
  only by the growth that was already pending, and the next \<open>Snake::Update\<close> lengthens
  the snake by exactly one cell and clears the flag.
\<close>

theorem C10_stacked_fruits:
  assumes "reachable rnd g" and "running g" and "body (snake g) = h # t"
    and "2 \<le> fruits_at (Vector2Add h (direction (snake g))) (fruits g)"
    and "finds_free rnd (Vector2Add h (direction (snake g)) # h # t)"
  shows "\<exists>g' s'. Update rnd g = Inr g' \<and>
           score g' = score g + int (fruits_at (Vector2Add h (direction (snake g))) (fruits g)) \<and>
           speed g' = (speed_up ^^ fruits_at (Vector2Add h (direction (snake g))) (fruits g)) (speed g) \<and>
           played g' = played g @ replicate (fruits_at (Vector2Add h (direction (snake g))) (fruits g)) Eat \<and>
           addSegment (snake g') \<and>
           length (body (snake g')) =
             (if addSegment (snake g) then length (body (snake g)) + 1 else length (body (snake g))) \<and>
           Snake_Update (snake g') = Inr s' \<and>
           length (body s') = length (body (snake g')) + 1 \<and>
           \<not> addSegment s'"
proof -
  let ?nh = "Vector2Add h (direction (snake g))"
  from reachable_invariant [OF assms(1)] have ff: "food_free g" by simp
  from assms(4) have k: "0 < fruits_at ?nh (fruits g)" by simp
  from Update_eat [OF assms(2,3) ff k assms(5)] obtain g' where
    u: "Update rnd g = Inr g'" and
    e: "score g' = score g + int (fruits_at ?nh (fruits g))"
       "speed g' = (speed_up ^^ fruits_at ?nh (fruits g)) (speed g)"
       "played g' = played g @ replicate (fruits_at ?nh (fruits g)) Eat" and
    a: "addSegment (snake g')" and
    b: "body (snake g') = ?nh # (if addSegment (snake g) then h # t else butlast (h # t))"
    by blast
  from b assms(3) have l: "length (body (snake g')) =
      (if addSegment (snake g) then length (body (snake g)) + 1 else length (body (snake g)))"
    by simp
  from b obtain t' where b': "body (snake g') = ?nh # t'" by blast
  from Snake_Update_returns [OF b'] a obtain s' where
    s: "Snake_Update (snake g') = Inr s'" and
    bs: "body s' = Vector2Add ?nh (direction (snake g')) # ?nh # t'" and
    ns: "\<not> addSegment s'" by auto
  from bs b' have "length (body s') = length (body (snake g')) + 1" by simp
  with u e a l s ns show ?thesis by blast
qed

theorem C10_stacked_fruits_witness:
  "reachable draws_stacked stacked_running \<and> running stacked_running \<and>
   fruits_at (7, 9) (fruits stacked_running) = 3 \<and>
   (\<exists>g' s'. Update draws_stacked stacked_running = Inr g' \<and>
      score g' = 3 \<and> speed g' = 0.2 * 0.98 ^ 3 \<and> played g' = [Eat, Eat, Eat] \<and>
      addSegment (snake g') \<and> length (body (snake g')) = 3 \<and>
      Snake_Update (snake g') = Inr s' \<and> length (body s') = 4 \<and> \<not> addSegment s')"
proof -
  have r: "running stacked_running"
    and b: "body (snake stacked_running) = (6, 9) # [(5, 9), (4, 9)]"
    and d: "Vector2Add (6, 9) (direction (snake stacked_running)) = (7, 9)"
    and k: "fruits_at (7, 9) (fruits stacked_running) = 3"
    and na: "\<not> addSegment (snake stacked_running)"
    and sc: "score stacked_running = 0" "speed stacked_running = 0.2" "played stacked_running = []"
    by (simp_all add: stacked_running_def stacked_start_def Vector2Add_def fruits_at_def)
  have f: "finds_free draws_stacked
             (Vector2Add (6, 9) (direction (snake stacked_running)) # (6, 9) # [(5, 9), (4, 9)])"
    unfolding d by (rule finds_free_draws_stacked) simp
  have k2: "2 \<le> fruits_at (Vector2Add (6, 9) (direction (snake stacked_running)))
                   (fruits stacked_running)"
    unfolding d k by simp
  have p: "(speed_up ^^ 3) 0.2 = 0.2 * 0.98 ^ 3"
    using speed_up_closed [of 3] by simp
  from C10_stacked_fruits [OF reachable_stacked_running r b k2 f] obtain g' s' where
    u: "Update draws_stacked stacked_running = Inr g'" and
    e1: "score g' = score stacked_running +
           int (fruits_at (Vector2Add (6, 9) (direction (snake stacked_running)))
                  (fruits stacked_running))" and
    e2: "speed g' = (speed_up ^^ fruits_at (Vector2Add (6, 9) (direction (snake stacked_running)))
                                  (fruits stacked_running)) (speed stacked_running)" and
    e3: "played g' = played stacked_running @
           replicate (fruits_at (Vector2Add (6, 9) (direction (snake stacked_running)))
                        (fruits stacked_running)) Eat" and
    e4: "addSegment (snake g')" and
    e5: "length (body (snake g')) =
           (if addSegment (snake stacked_running) then length (body (snake stacked_running)) + 1
            else length (body (snake stacked_running)))" and
    e6: "Snake_Update (snake g') = Inr s'" "length (body s') = length (body (snake g')) + 1"
        "\<not> addSegment s'"
    by blast
  from e1 have "score g' = 3" by (simp add: d k sc)
  moreover from e2 have "speed g' = 0.2 * 0.98 ^ 3" by (simp only: d k sc p)
  moreover from e3 have "played g' = [Eat, Eat, Eat]"
    by (simp add: d k sc numeral_3_eq_3)
  moreover from e5 have l: "length (body (snake g')) = 3" by (simp add: na b)
  moreover from e6(2) l have "length (body s') = 4" by simp
  ultimately show ?thesis
    using reachable_stacked_running r k u e4 e6(1,3) by blast
qed

end
